theory Spec2Isabelle
  imports Main
begin

section \<open>Data model of \<open>src/sidekick.py\<close>\<close>

text \<open>
  The conversation entries are the four message classes the program handles. Only an
  \<open>AIMessage\<close> has a \<open>tool_calls\<close> attribute; a \<open>ToolMessage\<close> carries the id of the
  call it answers. Contents are text.
\<close>

datatype tool_call = ToolCall (tc_name: string) (tc_args: string) (tc_id: string)

datatype msg =
    SystemMessage string
  | HumanMessage string
  | AIMessage string "tool_call list"
  | ToolMessage string string

fun content :: "msg \<Rightarrow> string" where
  "content (SystemMessage c) = c"
| "content (HumanMessage c) = c"
| "content (AIMessage c tcs) = c"
| "content (ToolMessage c i) = c"

text \<open>\<open>isinstance(msg, SystemMessage)\<close>, \<open>isinstance(msg, HumanMessage)\<close>,
  \<open>isinstance(msg, AIMessage)\<close>.\<close>

fun is_SystemMessage :: "msg \<Rightarrow> bool" where
  "is_SystemMessage (SystemMessage c) = True"
| "is_SystemMessage m = False"

fun is_HumanMessage :: "msg \<Rightarrow> bool" where
  "is_HumanMessage (HumanMessage c) = True"
| "is_HumanMessage m = False"

fun is_AIMessage :: "msg \<Rightarrow> bool" where
  "is_AIMessage (AIMessage c tcs) = True"
| "is_AIMessage m = False"

fun is_ToolMessage :: "msg \<Rightarrow> bool" where
  "is_ToolMessage (ToolMessage c i) = True"
| "is_ToolMessage m = False"

text \<open>\<open>hasattr(m, "tool_calls") and m.tool_calls\<close>: the attribute exists on an
  \<open>AIMessage\<close> only, and a list is truthy when it is not empty.\<close>

fun has_tool_calls :: "msg \<Rightarrow> bool" where
  "has_tool_calls (AIMessage c tcs) = (tcs \<noteq> [])"
| "has_tool_calls m = False"

text \<open>\<open>class State(TypedDict)\<close>.\<close>

record state =
  messages :: "msg list"
  success_criteria :: string
  feedback_on_work :: "string option"
  success_criteria_met :: bool
  user_input_needed :: bool

text \<open>\<open>class EvaluatorOutput(BaseModel)\<close>: the three-field judgment.\<close>

datatype EvaluatorOutput =
  EvaluatorOutput (feedback: string) (judged_met: bool) (judged_input_needed: bool)

datatype error =
    IndexError
  | ModelInvocationError string
  | StructuredOutputError string

text \<open>The nodes of the graph; \<open>END\<close> is the exit.\<close>

datatype node = Worker | Tools | Evaluator | END

section \<open>Routing\<close>

text \<open>\<open>Sidekick.worker_router\<close>: \<open>state["messages"][-1]\<close> raises \<open>IndexError\<close> on an
  empty list.\<close>

definition worker_router :: "state \<Rightarrow> error + node" where
  "worker_router st =
     (if messages st = [] then Inl IndexError
      else let last_message = last (messages st)
           in if has_tool_calls last_message then Inr Tools else Inr Evaluator)"

text \<open>\<open>Sidekick.route_based_on_evaluation\<close>.\<close>

definition route_based_on_evaluation :: "state \<Rightarrow> node" where
  "route_based_on_evaluation st =
     (if success_criteria_met st \<or> user_input_needed st then END else Worker)"

section \<open>Text\<close>

text \<open>Python's \<open>str.strip()\<close> removes leading and trailing white space. Of the code
  points below 256 these are 9 to 13, 28 to 32, 133 and 160.\<close>

definition is_space :: "char \<Rightarrow> bool" where
  "is_space c = ((of_char c :: nat) \<in> {9, 10, 11, 12, 13, 28, 29, 30, 31, 32, 133, 160})"

definition strip :: "string \<Rightarrow> string" where
  "strip s = rev (dropWhile is_space (rev (dropWhile is_space s)))"

definition newline :: string where
  "newline = [CHR 0x0A]"

text \<open>The lines of a triple-quoted literal, each closed by its line break.\<close>

definition text_lines :: "string list \<Rightarrow> string" where
  "text_lines ls = concat (map (\<lambda>l. l @ newline) ls)"

section \<open>Format conversation\<close>

text \<open>\<open>msg.content or '[tool use]'\<close>: an empty string is falsy.\<close>

definition content_or_tool_use :: "msg \<Rightarrow> string" where
  "content_or_tool_use m = (if content m = [] then ''[tool use]'' else content m)"

text \<open>The loop of \<open>Sidekick.format_conversation\<close>, with \<open>text\<close> as the accumulator.\<close>

fun format_loop :: "string \<Rightarrow> msg list \<Rightarrow> string" where
  "format_loop text [] = text"
| "format_loop text (m # rest) =
     (if is_HumanMessage m then
        format_loop (text @ ''User: '' @ content m @ newline) rest
      else if is_AIMessage m then
        format_loop (text @ ''Assistant: '' @ content_or_tool_use m @ newline) rest
      else format_loop text rest)"

definition format_conversation :: "msg list \<Rightarrow> string" where
  "format_conversation ms = strip (format_loop [] ms)"

section \<open>The external collaborators\<close>

text \<open>
  The two model calls, the tools and the clock are outside the program. They are
  parameters, indexed by the number of the graph step that calls them, so that two
  calls may answer differently. The worker's model answers with an \<open>AIMessage\<close>, given
  here by its content and its tool calls; the evaluator's model answers with an
  \<open>EvaluatorOutput\<close>, or fails (\<open>StructuredOutputError\<close> when its answer does not parse).
\<close>

record env =
  now :: "nat \<Rightarrow> string"
  worker_llm_with_tools :: "nat \<Rightarrow> msg list \<Rightarrow> error + (string \<times> tool_call list)"
  evaluator_llm_with_output :: "nat \<Rightarrow> msg list \<Rightarrow> error + EvaluatorOutput"
  tools :: "nat \<Rightarrow> tool_call \<Rightarrow> string"

section \<open>State updates\<close>

text \<open>
  A node returns a dictionary with some of the keys of the state. \<open>None\<close> is an absent
  key; every update of this program has the key \<open>messages\<close>.
\<close>

record update =
  upd_messages :: "msg list"
  upd_success_criteria :: "string option"
  upd_feedback_on_work :: "string option option"
  upd_success_criteria_met :: "bool option"
  upd_user_input_needed :: "bool option"

text \<open>
  Modelled from the spec: the reducer \<open>add_messages\<close> of the annotation
  \<open>Annotated[List[Any], add_messages]\<close> is the graph library's; appends merge by
  concatenation.
\<close>

definition add_messages :: "msg list \<Rightarrow> msg list \<Rightarrow> msg list" where
  "add_messages left right = left @ right"

text \<open>The other keys have no reducer: a present key overwrites the field.\<close>

definition apply_update :: "state \<Rightarrow> update \<Rightarrow> state" where
  "apply_update st u =
     st\<lparr> messages := add_messages (messages st) (upd_messages u),
         success_criteria :=
           (case upd_success_criteria u of None \<Rightarrow> success_criteria st | Some c \<Rightarrow> c),
         feedback_on_work :=
           (case upd_feedback_on_work u of None \<Rightarrow> feedback_on_work st | Some f \<Rightarrow> f),
         success_criteria_met :=
           (case upd_success_criteria_met u of None \<Rightarrow> success_criteria_met st | Some b \<Rightarrow> b),
         user_input_needed :=
           (case upd_user_input_needed u of None \<Rightarrow> user_input_needed st | Some b \<Rightarrow> b) \<rparr>"

section \<open>Worker node\<close>

text \<open>The f-string of \<open>Sidekick.worker\<close>, stripped.\<close>

definition worker_instructions :: "string \<Rightarrow> string \<Rightarrow> string" where
  "worker_instructions date_time criteria =
     strip (newline @ text_lines
       [''You are a helpful assistant that can use tools to complete tasks.'',
        ''You should continue working until either:'',
        ''- The success criteria is met, OR'',
        ''- You need clarification from the user.'',
        [],
        ''Rules:'',
        ''- Use tools when needed.'',
        ''- If using Python, include print() to return output.'',
        ''- If finished, provide a final answer.'',
        ''- If clarification is needed, clearly ask a question.'',
        [],
        ''Current date and time: '' @ date_time,
        [],
        ''Success criteria:'',
        criteria])"

text \<open>The clause added under \<open>if state.get("feedback_on_work")\<close>.\<close>

definition rejection_clause :: "string \<Rightarrow> string" where
  "rejection_clause fb =
     newline @ text_lines
       [[],
        ''Previous attempt was rejected for the following reason:'',
        fb,
        [],
        ''Please correct the issue and continue.'']"

text \<open>\<open>state.get("feedback_on_work")\<close> is falsy for \<open>None\<close> and for the empty string.\<close>

definition system_message :: "string \<Rightarrow> state \<Rightarrow> string" where
  "system_message date_time st =
     (case feedback_on_work st of
        None \<Rightarrow> worker_instructions date_time (success_criteria st)
      | Some fb \<Rightarrow>
          if fb = [] then worker_instructions date_time (success_criteria st)
          else worker_instructions date_time (success_criteria st) @ rejection_clause fb)"

text \<open>
  The loop under \<open># Ensure exactly one SystemMessage\<close>: every \<open>SystemMessage\<close> of the list
  gets the new content (the entries are the objects the state holds, so the state sees
  the assignment), and \<open>found_system\<close> tells whether there was one.
\<close>

fun rewrite_system :: "string \<Rightarrow> msg list \<Rightarrow> msg list \<times> bool" where
  "rewrite_system sm [] = ([], False)"
| "rewrite_system sm (m # rest) =
     (let (rest', found_system) = rewrite_system sm rest
      in if is_SystemMessage m then (SystemMessage sm # rest', True)
         else (m # rest', found_system))"

text \<open>The list given to the model: \<open>[SystemMessage(content=system_message)] + messages\<close>
  when no \<open>SystemMessage\<close> was found.\<close>

definition worker_input :: "string \<Rightarrow> state \<Rightarrow> msg list" where
  "worker_input date_time st =
     (let sm = system_message date_time st;
          (msgs, found_system) = rewrite_system sm (messages st)
      in if \<not> found_system then SystemMessage sm # msgs else msgs)"

text \<open>
  \<open>Sidekick.worker\<close> returns the update \<open>{"messages": [response]}\<close>; beside it the model
  gives the state's own list after the assignments of the loop.
\<close>

definition only_messages :: "msg list \<Rightarrow> update" where
  "only_messages ms =
     \<lparr> upd_messages = ms, upd_success_criteria = None, upd_feedback_on_work = None,
       upd_success_criteria_met = None, upd_user_input_needed = None \<rparr>"

definition worker :: "env \<Rightarrow> nat \<Rightarrow> state \<Rightarrow> error + (msg list \<times> update)" where
  "worker e t st =
     (let sm = system_message (now e t) st
      in case worker_llm_with_tools e t (worker_input (now e t) st) of
           Inl err \<Rightarrow> Inl err
         | Inr (c, tcs) \<Rightarrow>
             Inr (fst (rewrite_system sm (messages st)), only_messages [AIMessage c tcs]))"

text \<open>The state after the worker node: the rewritten list, then the update merged.\<close>

definition worker_step :: "env \<Rightarrow> nat \<Rightarrow> state \<Rightarrow> error + state" where
  "worker_step e t st =
     (case worker e t st of
        Inl err \<Rightarrow> Inl err
      | Inr (msgs, u) \<Rightarrow> Inr (apply_update (st\<lparr>messages := msgs\<rparr>) u))"

section \<open>Tool node\<close>

text \<open>
  Modelled from the spec: \<open>ToolNode(tools=self.tools)\<close> is the graph library's. For each
  tool call requested by the latest entry it appends one tool-result entry with the
  text the tool returned (or the description of its error). The graph enters it only
  after \<open>worker_router\<close> found such calls.
\<close>

fun pending_tool_calls :: "msg list \<Rightarrow> tool_call list" where
  "pending_tool_calls [] = []"
| "pending_tool_calls ms = (case last ms of AIMessage c tcs \<Rightarrow> tcs | _ \<Rightarrow> [])"

definition tool_node :: "env \<Rightarrow> nat \<Rightarrow> state \<Rightarrow> update" where
  "tool_node e t st =
     only_messages (map (\<lambda>tc. ToolMessage (tools e t tc) (tc_id tc))
                        (pending_tool_calls (messages st)))"

section \<open>Evaluator node\<close>

definition evaluator_system_message :: string where
  "evaluator_system_message =
     strip (newline @ text_lines
       [''You are an evaluator.'',
        [],
        ''CRITICAL OUTPUT RULES:'',
        ''- Respond ONLY with valid JSON'',
        ''- feedback MUST be a single-line string'',
        ''- Do NOT use newlines'',
        ''- Do NOT use bullet points'',
        ''- Do NOT use markdown'',
        ''- Do NOT start feedback with whitespace''])"

definition evaluator_user_message :: "state \<Rightarrow> string \<Rightarrow> string" where
  "evaluator_user_message st last_response =
     strip (newline @ text_lines
       [''Conversation:'',
        format_conversation (messages st),
        [],
        ''Success criteria:'',
        success_criteria st,
        [],
        ''Assistant final response:'',
        last_response,
        [],
        ''Evaluate if the success criteria is met.'',
        ''Decide if user input is required.'',
        [],
        ''If the assistant claims to have written files, assume it did so.'',
        ''Give benefit of the doubt, but reject if more work is needed.''])"

text \<open>The two entries given to the evaluator's model.\<close>

definition evaluator_input :: "state \<Rightarrow> msg list" where
  "evaluator_input st =
     [SystemMessage evaluator_system_message,
      HumanMessage (evaluator_user_message st (content (last (messages st))))]"

text \<open>
  \<open>Sidekick.evaluator\<close>: \<open>state["messages"][-1]\<close> raises \<open>IndexError\<close> on an empty list; a
  failure of the model call is not caught.
\<close>

definition evaluator :: "env \<Rightarrow> nat \<Rightarrow> state \<Rightarrow> error + update" where
  "evaluator e t st =
     (if messages st = [] then Inl IndexError
      else case evaluator_llm_with_output e t (evaluator_input st) of
             Inl err \<Rightarrow> Inl err
           | Inr eval_result \<Rightarrow>
               Inr \<lparr> upd_messages =
                       [AIMessage (''Evaluator feedback: '' @ feedback eval_result) []],
                     upd_success_criteria = None,
                     upd_feedback_on_work = Some (Some (feedback eval_result)),
                     upd_success_criteria_met = Some (judged_met eval_result),
                     upd_user_input_needed = Some (judged_input_needed eval_result) \<rparr>)"

definition evaluator_step :: "env \<Rightarrow> nat \<Rightarrow> state \<Rightarrow> error + state" where
  "evaluator_step e t st =
     (case evaluator e t st of
        Inl err \<Rightarrow> Inl err
      | Inr u \<Rightarrow> Inr (apply_update st u))"

section \<open>The graph\<close>

text \<open>
  \<open>Sidekick.build_graph\<close>: the edge from \<open>START\<close> enters \<open>worker\<close>; after \<open>worker\<close> the
  conditional edge \<open>worker_router\<close>; after \<open>tools\<close> the edge to \<open>worker\<close>; after
  \<open>evaluator\<close> the conditional edge \<open>route_based_on_evaluation\<close>.

  The graph has no bound on its cycles, so the run takes fuel, one unit for each node
  it executes, and \<open>OutOfFuel\<close> stands for a run that is still going. With the
  checkpointer every step leaves a checkpoint: the state and the node to run next. The
  run returns the checkpoints in order, the first being the one it starts from. A node
  that raises leaves no checkpoint of its own.
\<close>

datatype outcome = Exited | Raised error | OutOfFuel

type_synonym checkpoint = "state \<times> node"

fun run_graph :: "env \<Rightarrow> nat \<Rightarrow> nat \<Rightarrow> node \<Rightarrow> state \<Rightarrow> checkpoint list \<times> outcome" where
  "run_graph e fuel t END st = ([(st, END)], Exited)"
| "run_graph e 0 t nd st = ([(st, nd)], OutOfFuel)"
| "run_graph e (Suc fuel) t Worker st =
     (case worker_step e t st of
        Inl err \<Rightarrow> ([(st, Worker)], Raised err)
      | Inr st' \<Rightarrow>
          (case worker_router st' of
             Inl err \<Rightarrow> ([(st, Worker)], Raised err)
           | Inr nd \<Rightarrow>
               (let (cps, out) = run_graph e fuel (Suc t) nd st'
                in ((st, Worker) # cps, out))))"
| "run_graph e (Suc fuel) t Tools st =
     (let (cps, out) = run_graph e fuel (Suc t) Worker (apply_update st (tool_node e t st))
      in ((st, Tools) # cps, out))"
| "run_graph e (Suc fuel) t Evaluator st =
     (case evaluator_step e t st of
        Inl err \<Rightarrow> ([(st, Evaluator)], Raised err)
      | Inr st' \<Rightarrow>
          (let (cps, out) = run_graph e fuel (Suc t) (route_based_on_evaluation st') st'
           in ((st, Evaluator) # cps, out)))"

section \<open>Run superstep\<close>

text \<open>
  The checkpointer keeps the checkpoints of the one thread of a \<open>Sidekick\<close>, oldest
  first. A new call continues from the state of the latest one; with none the fields
  are absent, and the input sets every one of them.
\<close>

type_synonym store = "checkpoint list"

definition absent_state :: state where
  "absent_state =
     \<lparr> messages = [], success_criteria = [], feedback_on_work = None,
       success_criteria_met = False, user_input_needed = False \<rparr>"

definition latest_state :: "store \<Rightarrow> state" where
  "latest_state cps = (if cps = [] then absent_state else fst (last cps))"

text \<open>\<open>success_criteria or "The answer should be clear and accurate"\<close>: \<open>None\<close> and the
  empty string are falsy.\<close>

definition criteria_or_default :: "string option \<Rightarrow> string" where
  "criteria_or_default criteria =
     (case criteria of
        None \<Rightarrow> ''The answer should be clear and accurate''
      | Some c \<Rightarrow> if c = [] then ''The answer should be clear and accurate'' else c)"

text \<open>The dictionary \<open>state\<close> built by \<open>run_superstep\<close>, the input of the graph.\<close>

definition graph_input :: "string \<Rightarrow> string option \<Rightarrow> update" where
  "graph_input message criteria =
     \<lparr> upd_messages = [HumanMessage message],
       upd_success_criteria = Some (criteria_or_default criteria),
       upd_feedback_on_work = Some None,
       upd_success_criteria_met = Some False,
       upd_user_input_needed = Some False \<rparr>"

text \<open>The state the first node of a call sees: the input merged into the latest
  checkpoint.\<close>

definition seeded_state :: "store \<Rightarrow> string \<Rightarrow> string option \<Rightarrow> state" where
  "seeded_state cps message criteria =
     apply_update (latest_state cps) (graph_input message criteria)"

text \<open>\<open>self.graph.ainvoke(state, config=config)\<close>: the checkpoints written and how the
  run ended; the result of the call is the state of the last checkpoint.\<close>

definition ainvoke :: "env \<Rightarrow> nat \<Rightarrow> store \<Rightarrow> update \<Rightarrow> checkpoint list \<times> outcome" where
  "ainvoke e fuel cps inp = run_graph e fuel 0 Worker (apply_update (latest_state cps) inp)"

text \<open>Python's \<open>xs[-1]\<close> and \<open>xs[-2]\<close>.\<close>

definition index_from_end :: "'a list \<Rightarrow> nat \<Rightarrow> error + 'a" where
  "index_from_end xs k =
     (if 0 < k \<and> k \<le> length xs then Inr (xs ! (length xs - k)) else Inl IndexError)"

text \<open>A transcript entry \<open>{"role": r, "content": c}\<close> is the pair \<open>(r, c)\<close>.\<close>

type_synonym transcript = "(string \<times> string) list"

text \<open>
  \<open>Sidekick.run_superstep\<close> gives the store after the call and, unless the run is still
  going, what the call returned or raised.
\<close>

definition run_superstep ::
  "env \<Rightarrow> nat \<Rightarrow> store \<Rightarrow> string \<Rightarrow> string option \<Rightarrow> transcript
     \<Rightarrow> store \<times> (error + transcript) option" where
  "run_superstep e fuel cps message criteria history =
     (let (written, out) = ainvoke e fuel cps (graph_input message criteria);
          result = fst (last written)
      in (cps @ written,
          case out of
            OutOfFuel \<Rightarrow> None
          | Raised err \<Rightarrow> Some (Inl err)
          | Exited \<Rightarrow>
              (case index_from_end (messages result) 2 of
                 Inl err \<Rightarrow> Some (Inl err)
               | Inr m2 \<Rightarrow>
                   (case index_from_end (messages result) 1 of
                      Inl err \<Rightarrow> Some (Inl err)
                    | Inr m1 \<Rightarrow>
                        Some (Inr (history @
                          [(''user'', message),
                           (''assistant'', content m2),
                           (''assistant'', content m1)]))))))"

text \<open>A session is a sequence of calls on one \<open>Sidekick\<close>, from an empty store.\<close>

record call =
  call_env :: env
  call_fuel :: nat
  call_message :: string
  call_criteria :: "string option"
  call_history :: transcript

fun session :: "store \<Rightarrow> call list \<Rightarrow> store" where
  "session cps [] = cps"
| "session cps (c # cs) =
     session (fst (run_superstep (call_env c) (call_fuel c) cps (call_message c)
                     (call_criteria c) (call_history c))) cs"

section \<open>Properties of message lists\<close>

text \<open>
  \<open>append_only old new\<close>: the list did not shrink, every entry of \<open>old\<close> that is not a
  system entry is unchanged at its place in \<open>new\<close>, and a system entry is still one.
\<close>

definition append_only :: "msg list \<Rightarrow> msg list \<Rightarrow> bool" where
  "append_only old new =
     (length old \<le> length new \<and>
      list_all2 (\<lambda>a b. if is_SystemMessage a then is_SystemMessage b else b = a)
        old (take (length old) new))"

definition system_entries :: "msg list \<Rightarrow> nat" where
  "system_entries ms = length (filter is_SystemMessage ms)"

section \<open>Example collaborators\<close>

text \<open>
  Collaborators that answer from a script, whatever they are asked: entry \<open>t\<close> of the
  script is what the node of step \<open>t\<close> gets from outside, a reply of the worker's model,
  a judgment of the evaluator's model or a failure; \<open>Idle\<close> stands at a step that calls
  no model.
\<close>

datatype answer =
    Reply string "tool_call list"
  | Judgment EvaluatorOutput
  | Failure error
  | Idle

definition answer_at :: "answer list \<Rightarrow> nat \<Rightarrow> answer" where
  "answer_at script t =
     (if t < length script then script ! t else Failure (ModelInvocationError ''end of script''))"

fun reply_of :: "answer \<Rightarrow> error + string \<times> tool_call list" where
  "reply_of (Reply c tcs) = Inr (c, tcs)"
| "reply_of (Failure err) = Inl err"
| "reply_of a = Inl (ModelInvocationError ''no reply'')"

fun judgment_of :: "answer \<Rightarrow> error + EvaluatorOutput" where
  "judgment_of (Judgment j) = Inr j"
| "judgment_of (Failure err) = Inl err"
| "judgment_of a = Inl (ModelInvocationError ''no judgment'')"

definition example_env :: "answer list \<Rightarrow> env" where
  "example_env script =
     \<lparr> now = (\<lambda>t. ''2026-01-01 12:00:00''),
       worker_llm_with_tools = (\<lambda>t ms. reply_of (answer_at script t)),
       evaluator_llm_with_output = (\<lambda>t ms. judgment_of (answer_at script t)),
       tools = (\<lambda>t tc. ''result of '' @ tc_name tc) \<rparr>"

text \<open>The worker answers without a tool call and the evaluator accepts.\<close>

definition scenario_A :: "answer list" where
  "scenario_A =
     [Reply ''Summary of X'' [],
      Judgment (EvaluatorOutput ''clear and accurate'' True False)]"

text \<open>The worker asks for a tool, answers after its result, and the evaluator accepts.\<close>

definition scenario_B :: "answer list" where
  "scenario_B =
     [Reply [] [ToolCall ''search'' ''X'' ''call_1''],
      Idle,
      Reply ''Summary of X'' [],
      Judgment (EvaluatorOutput ''clear and accurate'' True False)]"

text \<open>The evaluator rejects the first answer and accepts the second.\<close>

definition scenario_C :: "answer list" where
  "scenario_C =
     [Reply ''Summary of X'' [],
      Judgment (EvaluatorOutput ''missing citation'' False False),
      Reply ''Summary of X, with citation'' [],
      Judgment (EvaluatorOutput ''clear and accurate'' True False)]"

text \<open>The answer of the evaluator's model does not parse.\<close>

definition scenario_D :: "answer list" where
  "scenario_D =
     [Reply ''Summary of X'' [],
      Failure (StructuredOutputError ''not a judgment'')]"

text \<open>The state of a fresh session after the input \<open>Summarize X\<close> with no criteria.\<close>

definition example_state :: state where
  "example_state = seeded_state [] ''Summarize X'' None"

text \<open>One call of a session, in scenario A.\<close>

definition example_call :: call where
  "example_call =
     \<lparr> call_env = example_env scenario_A, call_fuel = Suc (Suc 0),
       call_message = ''Summarize X'', call_criteria = None, call_history = [] \<rparr>"

section \<open>Lemmas about the nodes and the run\<close>

lemma rewrite_system_fst:
  "fst (rewrite_system sm ms) = map (\<lambda>m. if is_SystemMessage m then SystemMessage sm else m) ms"
  by (induction ms) (auto split: prod.splits)

lemma rewrite_system_snd:
  "snd (rewrite_system sm ms) = (filter is_SystemMessage ms \<noteq> [])"
  by (induction ms) (auto split: prod.splits)

lemma rewrite_system_none:
  "filter is_SystemMessage ms = [] \<Longrightarrow> rewrite_system sm ms = (ms, False)"
  by (induction ms) (auto split: prod.splits if_splits)

lemma worker_step_Inr:
  assumes "worker_step e t st = Inr st'"
  shows "\<exists>c tcs. worker_llm_with_tools e t (worker_input (now e t) st) = Inr (c, tcs) \<and>
           st' = st\<lparr>messages := fst (rewrite_system (system_message (now e t) st) (messages st))
                                  @ [AIMessage c tcs]\<rparr>"
  using assms
  by (auto simp: worker_step_def worker_def apply_update_def add_messages_def only_messages_def
           split: sum.splits prod.splits)

lemma evaluator_step_Inr:
  assumes "evaluator_step e t st = Inr st'"
  shows "messages st \<noteq> [] \<and> (\<exists>j. evaluator_llm_with_output e t (evaluator_input st) = Inr j \<and>
           st' = st\<lparr>messages := messages st @ [AIMessage (''Evaluator feedback: '' @ feedback j) []],
                    feedback_on_work := Some (feedback j),
                    success_criteria_met := judged_met j,
                    user_input_needed := judged_input_needed j\<rparr>)"
  using assms
  by (auto simp: evaluator_step_def evaluator_def apply_update_def add_messages_def
           split: sum.splits if_splits)

lemma tool_step_eq:
  "apply_update st (tool_node e t st) =
     st\<lparr>messages := messages st @ map (\<lambda>tc. ToolMessage (tools e t tc) (tc_id tc))
                                       (pending_tool_calls (messages st))\<rparr>"
  by (simp add: apply_update_def tool_node_def only_messages_def add_messages_def)

lemma run_graph_hd:
  "fst (run_graph e fuel t nd st) \<noteq> [] \<and> hd (fst (run_graph e fuel t nd st)) = (st, nd)"
  by (induction e fuel t nd st rule: run_graph.induct)
     (auto split: sum.splits prod.splits)


lemma append_only_nth:
  "append_only old new =
     (length old \<le> length new \<and>
      (\<forall>i<length old. if is_SystemMessage (old ! i) then is_SystemMessage (new ! i)
                        else new ! i = old ! i))"
  by (auto simp: append_only_def list_all2_conv_all_nth)

lemma append_only_refl: "append_only ms ms"
  by (simp add: append_only_nth)

lemma append_only_trans:
  assumes "append_only a b" and "append_only b c"
  shows "append_only a c"
  unfolding append_only_nth
proof (intro conjI allI impI)
  show "length a \<le> length c" using assms by (simp add: append_only_nth)
next
  fix i assume i: "i < length a"
  then have ib: "i < length b" using assms(1) by (simp add: append_only_nth)
  from assms(1) i have ab: "if is_SystemMessage (a ! i) then is_SystemMessage (b ! i) else b ! i = a ! i"
    by (simp add: append_only_nth)
  from assms(2) ib have bc: "if is_SystemMessage (b ! i) then is_SystemMessage (c ! i) else c ! i = b ! i"
    by (simp add: append_only_nth)
  show "if is_SystemMessage (a ! i) then is_SystemMessage (c ! i) else c ! i = a ! i"
    using ab bc by (auto split: if_splits)
qed

lemma append_only_append: "append_only ms (ms @ xs)"
  by (simp add: append_only_nth nth_append)

lemma append_only_rewrite:
  "append_only ms (fst (rewrite_system sm ms) @ xs)"
  by (simp add: append_only_nth nth_append rewrite_system_fst)

lemma worker_step_append_only:
  "worker_step e t st = Inr st' \<Longrightarrow> append_only (messages st) (messages st')"
  by (auto dest!: worker_step_Inr simp: append_only_rewrite)

lemma evaluator_step_append_only:
  "evaluator_step e t st = Inr st' \<Longrightarrow> append_only (messages st) (messages st')"
  by (auto dest!: evaluator_step_Inr simp: append_only_append)

lemma tool_step_append_only:
  "append_only (messages st) (messages (apply_update st (tool_node e t st)))"
  by (simp add: tool_step_eq append_only_append)

lemma run_graph_from_start:
  "\<forall>c \<in> set (fst (run_graph e fuel t nd st)). append_only (messages st) (messages (fst c))"
proof (induction e fuel t nd st rule: run_graph.induct)
  case (3 e fuel t st)
  show ?case
  proof (cases "worker_step e t st")
    case (Inl err) then show ?thesis by (simp add: append_only_refl)
  next
    case (Inr st')
    note w = this
    show ?thesis
    proof (cases "worker_router st'")
      case (Inl err) then show ?thesis using w by (simp add: append_only_refl)
    next
      case (Inr nd)
      from 3[OF w Inr] worker_step_append_only[OF w]
      show ?thesis using w Inr
        by (auto simp: append_only_refl split: prod.splits intro: append_only_trans)
    qed
  qed
next
  case (4 e fuel t st)
  then show ?case using tool_step_append_only[of st e t]
    by (auto simp: append_only_refl split: prod.splits intro: append_only_trans)
next
  case (5 e fuel t st)
  show ?case
  proof (cases "evaluator_step e t st")
    case (Inl err) then show ?thesis by (simp add: append_only_refl)
  next
    case (Inr st')
    from 5[OF Inr] evaluator_step_append_only[OF Inr]
    show ?thesis using Inr
      by (auto simp: append_only_refl split: prod.splits intro: append_only_trans)
  qed
qed (simp_all add: append_only_refl)

lemma run_graph_sorted:
  "sorted_wrt (\<lambda>a b. append_only (messages (fst a)) (messages (fst b)))
     (fst (run_graph e fuel t nd st))"
proof (induction e fuel t nd st rule: run_graph.induct)
  case (3 e fuel t st)
  show ?case
  proof (cases "worker_step e t st")
    case (Inl err) then show ?thesis by simp
  next
    case (Inr st')
    note w = this
    show ?thesis
    proof (cases "worker_router st'")
      case (Inl err) then show ?thesis using w by simp
    next
      case (Inr nd)
      from 3[OF w Inr] run_graph_from_start[of e fuel "Suc t" nd st'] worker_step_append_only[OF w]
      show ?thesis using w Inr
        by (auto split: prod.splits intro: append_only_trans)
    qed
  qed
next
  case (4 e fuel t st)
  then show ?case
    using tool_step_append_only[of st e t]
      run_graph_from_start[of e fuel "Suc t" Worker "apply_update st (tool_node e t st)"]
    by (auto split: prod.splits intro: append_only_trans)
next
  case (5 e fuel t st)
  show ?case
  proof (cases "evaluator_step e t st")
    case (Inl err) then show ?thesis by simp
  next
    case (Inr st')
    from 5[OF Inr] evaluator_step_append_only[OF Inr]
      run_graph_from_start[of e fuel "Suc t" "route_based_on_evaluation st'" st']
    show ?thesis using Inr
      by (auto split: prod.splits intro: append_only_trans)
  qed
qed simp_all


lemma system_entries_rewrite:
  "system_entries (fst (rewrite_system sm ms)) = system_entries ms"
  by (induction ms) (auto simp: system_entries_def split: prod.splits)

lemma worker_input_eq:
  "worker_input d st =
     (if system_entries (messages st) = 0 then SystemMessage (system_message d st) # messages st
      else map (\<lambda>m. if is_SystemMessage m then SystemMessage (system_message d st) else m)
             (messages st))"
proof (cases "filter is_SystemMessage (messages st) = []")
  case True
  then show ?thesis
    by (simp add: worker_input_def system_entries_def rewrite_system_none)
next
  case False
  have "rewrite_system (system_message d st) (messages st) =
          (fst (rewrite_system (system_message d st) (messages st)),
           snd (rewrite_system (system_message d st) (messages st)))"
    by simp
  then show ?thesis using False
    unfolding worker_input_def Let_def rewrite_system_fst rewrite_system_snd
    by (simp add: system_entries_def split: prod.splits)
qed

lemma system_entries_worker_input:
  "system_entries (worker_input d st) = max 1 (system_entries (messages st))"
proof -
  have "system_entries (map (\<lambda>m. if is_SystemMessage m then SystemMessage sm else m) ms)
          = system_entries ms" for sm ms
    by (induction ms) (auto simp: system_entries_def)
  then show ?thesis
    by (auto simp: worker_input_eq) (simp add: system_entries_def)
qed

lemma worker_step_system_entries:
  "worker_step e t st = Inr st' \<Longrightarrow> system_entries (messages st') = system_entries (messages st)"
  using system_entries_rewrite[of "system_message (now e t) st" "messages st"]
  by (auto dest!: worker_step_Inr simp: system_entries_def)

lemma evaluator_step_system_entries:
  "evaluator_step e t st = Inr st' \<Longrightarrow> system_entries (messages st') = system_entries (messages st)"
  by (auto dest!: evaluator_step_Inr simp: system_entries_def)

lemma tool_step_system_entries:
  "system_entries (messages (apply_update st (tool_node e t st))) = system_entries (messages st)"
  by (simp add: tool_step_eq system_entries_def filter_map comp_def)

lemma run_graph_system_entries:
  "\<forall>c \<in> set (fst (run_graph e fuel t nd st)).
     system_entries (messages (fst c)) = system_entries (messages st)"
proof (induction e fuel t nd st rule: run_graph.induct)
  case (3 e fuel t st)
  show ?case
  proof (cases "worker_step e t st")
    case (Inl err) then show ?thesis by simp
  next
    case (Inr st')
    note w = this
    show ?thesis
    proof (cases "worker_router st'")
      case (Inl err) then show ?thesis using w by simp
    next
      case (Inr nd)
      from 3[OF w Inr] worker_step_system_entries[OF w]
      show ?thesis using w Inr by (auto split: prod.splits)
    qed
  qed
next
  case (4 e fuel t st)
  then show ?case using tool_step_system_entries[of st e t]
    by (auto split: prod.splits)
next
  case (5 e fuel t st)
  show ?case
  proof (cases "evaluator_step e t st")
    case (Inl err) then show ?thesis by simp
  next
    case (Inr st')
    from 5[OF Inr] evaluator_step_system_entries[OF Inr]
    show ?thesis using Inr by (auto split: prod.splits)
  qed
qed simp_all

lemma seeded_state_messages:
  "messages (seeded_state cps message criteria) = messages (latest_state cps) @ [HumanMessage message]"
  by (simp add: seeded_state_def apply_update_def graph_input_def add_messages_def)

lemma run_superstep_store:
  "fst (run_superstep e fuel cps message criteria history) =
     cps @ fst (run_graph e fuel 0 Worker (seeded_state cps message criteria))"
  by (simp add: run_superstep_def ainvoke_def seeded_state_def Let_def split: prod.splits)

lemma latest_state_system_entries:
  "\<forall>c \<in> set cps. system_entries (messages (fst c)) = 0 \<Longrightarrow>
     system_entries (messages (latest_state cps)) = 0"
  by (auto simp: latest_state_def absent_state_def system_entries_def)

lemma run_superstep_system_entries:
  assumes "\<forall>c \<in> set cps. system_entries (messages (fst c)) = 0"
  shows "\<forall>c \<in> set (fst (run_superstep e fuel cps message criteria history)).
           system_entries (messages (fst c)) = 0"
proof -
  have "system_entries (messages (seeded_state cps message criteria)) = 0"
    using latest_state_system_entries[OF assms]
    by (simp add: seeded_state_messages system_entries_def)
  then show ?thesis
    using assms run_graph_system_entries[of e fuel 0 Worker "seeded_state cps message criteria"]
    by (auto simp: run_superstep_store)
qed

lemma session_system_entries:
  "\<forall>c \<in> set cps. system_entries (messages (fst c)) = 0 \<Longrightarrow>
   \<forall>c \<in> set (session cps calls). system_entries (messages (fst c)) = 0"
proof (induction calls arbitrary: cps)
  case Nil
  then show ?case by simp
next
  case (Cons c cs)
  show ?case
    unfolding session.simps
    by (rule Cons.IH, rule run_superstep_system_entries, rule Cons.prems)
qed


lemma worker_router_after_worker:
  assumes "worker_step e t st = Inr st'" and "worker_router st' = Inr nd"
  shows "(nd = Tools \<or> nd = Evaluator) \<and>
         (nd = Evaluator \<longrightarrow> (\<exists>c. messages st' = butlast (messages st') @ [AIMessage c []]))"
proof -
  from worker_step_Inr[OF assms(1)] obtain c tcs where
    m: "messages st' = fst (rewrite_system (system_message (now e t) st) (messages st)) @ [AIMessage c tcs]"
    by auto
  then show ?thesis using assms(2)
    by (auto simp: worker_router_def split: if_splits)
qed

lemma last_Cons_run_graph:
  "last (x # fst (run_graph e fuel t nd st)) = last (fst (run_graph e fuel t nd st))"
  using run_graph_hd[of e fuel t nd st] by simp

lemma run_graph_exit_shape:
  assumes "snd (run_graph e fuel t nd st) = Exited" and "nd \<noteq> END"
    and "nd = Evaluator \<longrightarrow> (\<exists>c. messages st = butlast (messages st) @ [AIMessage c []])"
  shows "\<exists>pre c fb. messages (fst (last (fst (run_graph e fuel t nd st)))) =
           pre @ [AIMessage c [], AIMessage (''Evaluator feedback: '' @ fb) []]"
  using assms
proof (induction e fuel t nd st rule: run_graph.induct)
  case (3 e fuel t st)
  from "3.prems"(1) obtain st' where w: "worker_step e t st = Inr st'"
    by (cases "worker_step e t st") auto
  from "3.prems"(1) w obtain nd where r: "worker_router st' = Inr nd"
    by (cases "worker_router st'") auto
  from "3.prems"(1) w r have ex: "snd (run_graph e fuel (Suc t) nd st') = Exited"
    by (simp split: prod.splits)
  from worker_router_after_worker[OF w r] have
    nd: "nd \<noteq> END" "nd = Evaluator \<longrightarrow> (\<exists>c. messages st' = butlast (messages st') @ [AIMessage c []])"
    by auto
  have tr: "fst (run_graph e (Suc fuel) t Worker st) =
              (st, Worker) # fst (run_graph e fuel (Suc t) nd st')"
    using w r by (simp split: prod.splits)
  from "3.IH"[OF w r ex nd] show ?case
    unfolding tr last_Cons_run_graph .
next
  case (4 e fuel t st)
  from "4.prems"(1)
  have ex: "snd (run_graph e fuel (Suc t) Worker (apply_update st (tool_node e t st))) = Exited"
    by (simp split: prod.splits)
  have tr: "fst (run_graph e (Suc fuel) t Tools st) =
              (st, Tools) # fst (run_graph e fuel (Suc t) Worker (apply_update st (tool_node e t st)))"
    by (simp split: prod.splits)
  from "4.IH"[OF ex] show ?case
    unfolding tr last_Cons_run_graph by simp
next
  case (5 e fuel t st)
  from "5.prems"(1) obtain st' where ev: "evaluator_step e t st = Inr st'"
    by (cases "evaluator_step e t st") auto
  from "5.prems"(1) ev
  have ex: "snd (run_graph e fuel (Suc t) (route_based_on_evaluation st') st') = Exited"
    by (simp split: prod.splits)
  from evaluator_step_Inr[OF ev] obtain j where
    m: "messages st' = messages st @ [AIMessage (''Evaluator feedback: '' @ feedback j) []]"
    by auto
  from "5.prems"(3) obtain c where c: "messages st = butlast (messages st) @ [AIMessage c []]"
    by auto
  have tr: "fst (run_graph e (Suc fuel) t Evaluator st) =
              (st, Evaluator) # fst (run_graph e fuel (Suc t) (route_based_on_evaluation st') st')"
    using ev by (simp split: prod.splits)
  show ?case
  proof (cases "route_based_on_evaluation st' = END")
    case True
    have "messages st' = butlast (messages st) @
            [AIMessage c [], AIMessage (''Evaluator feedback: '' @ feedback j) []]"
      using m c by (metis append_Cons append_Nil append_assoc)
    moreover have "fst (last (fst (run_graph e (Suc fuel) t Evaluator st))) = st'"
      unfolding tr True by simp
    ultimately show ?thesis by metis
  next
    case False
    then have rw: "route_based_on_evaluation st' = Worker"
      by (simp add: route_based_on_evaluation_def split: if_splits)
    from "5.IH"[OF ev] ex rw show ?thesis
      unfolding tr last_Cons_run_graph by simp
  qed
qed simp_all

lemma run_graph_flags:
  assumes "snd (run_graph e fuel t nd st) \<noteq> Exited"
    and "\<not> success_criteria_met st \<and> \<not> user_input_needed st"
  shows "\<forall>c \<in> set (fst (run_graph e fuel t nd st)).
           \<not> success_criteria_met (fst c) \<and> \<not> user_input_needed (fst c)"
  using assms
proof (induction e fuel t nd st rule: run_graph.induct)
  case (3 e fuel t st)
  show ?case
  proof (cases "worker_step e t st")
    case (Inl err) then show ?thesis using "3.prems" by simp
  next
    case (Inr st')
    note w = this
    from worker_step_Inr[OF w] "3.prems"(2)
    have f: "\<not> success_criteria_met st' \<and> \<not> user_input_needed st'" by auto
    show ?thesis
    proof (cases "worker_router st'")
      case (Inl err) then show ?thesis using w "3.prems" by simp
    next
      case (Inr nd)
      from "3.prems"(1) w Inr have "snd (run_graph e fuel (Suc t) nd st') \<noteq> Exited"
        by (simp split: prod.splits)
      from "3.IH"[OF w Inr this f] show ?thesis using w Inr "3.prems"(2)
        by (auto split: prod.splits)
    qed
  qed
next
  case (4 e fuel t st)
  from "4.prems"(1)
  have ne: "snd (run_graph e fuel (Suc t) Worker (apply_update st (tool_node e t st))) \<noteq> Exited"
    by (simp split: prod.splits)
  from "4.prems"(2)
  have f: "\<not> success_criteria_met (apply_update st (tool_node e t st)) \<and>
           \<not> user_input_needed (apply_update st (tool_node e t st))"
    by (simp add: tool_step_eq)
  from "4.IH"[OF ne f] show ?case using "4.prems"(2)
    by (auto split: prod.splits)
next
  case (5 e fuel t st)
  show ?case
  proof (cases "evaluator_step e t st")
    case (Inl err) then show ?thesis using "5.prems" by simp
  next
    case (Inr st')
    from "5.prems"(1) Inr
    have ne: "snd (run_graph e fuel (Suc t) (route_based_on_evaluation st') st') \<noteq> Exited"
      by (simp split: prod.splits)
    then have "route_based_on_evaluation st' \<noteq> END"
      by auto
    then have f: "\<not> success_criteria_met st' \<and> \<not> user_input_needed st'"
      by (auto simp: route_based_on_evaluation_def split: if_splits)
    from "5.IH"[OF Inr ne f] show ?thesis using Inr "5.prems"(2)
      by (auto split: prod.splits)
  qed
qed simp_all

lemma run_graph_evaluator_nonempty:
  assumes "nd = Evaluator \<longrightarrow> messages st \<noteq> []"
  shows "\<forall>c \<in> set (fst (run_graph e fuel t nd st)). snd c = Evaluator \<longrightarrow> messages (fst c) \<noteq> []"
  using assms
proof (induction e fuel t nd st rule: run_graph.induct)
  case (3 e fuel t st)
  show ?case
  proof (cases "worker_step e t st")
    case (Inl err) then show ?thesis by simp
  next
    case (Inr st')
    note w = this
    from worker_step_Inr[OF w] have ne: "messages st' \<noteq> []" by auto
    show ?thesis
    proof (cases "worker_router st'")
      case (Inl err) then show ?thesis using w by simp
    next
      case (Inr nd)
      from "3.IH"[OF w Inr] ne show ?thesis using w Inr
        by (auto split: prod.splits)
    qed
  qed
next
  case (4 e fuel t st)
  then show ?case by (auto split: prod.splits)
next
  case (5 e fuel t st)
  show ?case
  proof (cases "evaluator_step e t st")
    case (Inl err) then show ?thesis using "5.prems" by simp
  next
    case (Inr st')
    from evaluator_step_Inr[OF Inr] have ne: "messages st' \<noteq> []" by auto
    from "5.IH"[OF Inr] ne show ?thesis using Inr "5.prems"
      by (auto split: prod.splits)
  qed
qed simp_all

lemma run_graph_nth0: "fst (run_graph e fuel t nd st) ! 0 = (st, nd)"
  using run_graph_hd[of e fuel t nd st] by (cases "fst (run_graph e fuel t nd st)") auto

lemma run_graph_suffix:
  "i < length (fst (run_graph e fuel t nd st)) \<Longrightarrow>
   run_graph e (fuel - i) (t + i) (snd (fst (run_graph e fuel t nd st) ! i))
     (fst (fst (run_graph e fuel t nd st) ! i)) =
   (drop i (fst (run_graph e fuel t nd st)), snd (run_graph e fuel t nd st))"
proof (induction e fuel t nd st arbitrary: i rule: run_graph.induct)
  case (3 e fuel t st)
  show ?case
  proof (cases i)
    case 0
    then show ?thesis
      by (simp add: run_graph_nth0 del: run_graph.simps)
  next
    case (Suc j)
    show ?thesis
    proof (cases "worker_step e t st")
      case (Inl err) then show ?thesis using "3.prems" Suc by simp
    next
      case (Inr st')
      note w = this
      show ?thesis
      proof (cases "worker_router st'")
        case (Inl err) then show ?thesis using w "3.prems" Suc by simp
      next
        case (Inr nd)
        have tr: "fst (run_graph e (Suc fuel) t Worker st) =
                    (st, Worker) # fst (run_graph e fuel (Suc t) nd st')"
          and sn: "snd (run_graph e (Suc fuel) t Worker st) = snd (run_graph e fuel (Suc t) nd st')"
          using w Inr by (simp_all split: prod.splits)
        from "3.prems" Suc have "j < length (fst (run_graph e fuel (Suc t) nd st'))"
          unfolding tr by simp
        from "3.IH"[OF w Inr this] show ?thesis using Suc
          by (simp add: tr sn del: run_graph.simps)
      qed
    qed
  qed
next
  case (4 e fuel t st)
  show ?case
  proof (cases i)
    case 0
    then show ?thesis
      by (simp add: run_graph_nth0 del: run_graph.simps)
  next
    case (Suc j)
    have tr: "fst (run_graph e (Suc fuel) t Tools st) =
                (st, Tools) # fst (run_graph e fuel (Suc t) Worker (apply_update st (tool_node e t st)))"
      and sn: "snd (run_graph e (Suc fuel) t Tools st) =
                snd (run_graph e fuel (Suc t) Worker (apply_update st (tool_node e t st)))"
      by (simp_all split: prod.splits)
    from "4.prems" Suc
    have "j < length (fst (run_graph e fuel (Suc t) Worker (apply_update st (tool_node e t st))))"
      unfolding tr by simp
    from "4.IH"[OF this] show ?thesis using Suc
      by (simp add: tr sn del: run_graph.simps)
  qed
next
  case (5 e fuel t st)
  show ?case
  proof (cases i)
    case 0
    then show ?thesis
      by (simp add: run_graph_nth0 del: run_graph.simps)
  next
    case (Suc j)
    show ?thesis
    proof (cases "evaluator_step e t st")
      case (Inl err) then show ?thesis using "5.prems" Suc by simp
    next
      case (Inr st')
      have tr: "fst (run_graph e (Suc fuel) t Evaluator st) =
                  (st, Evaluator) # fst (run_graph e fuel (Suc t) (route_based_on_evaluation st') st')"
        and sn: "snd (run_graph e (Suc fuel) t Evaluator st) =
                  snd (run_graph e fuel (Suc t) (route_based_on_evaluation st') st')"
        using Inr by (simp_all split: prod.splits)
      from "5.prems" Suc
      have "j < length (fst (run_graph e fuel (Suc t) (route_based_on_evaluation st') st'))"
        unfolding tr by simp
      from "5.IH"[OF Inr this] show ?thesis using Suc
        by (simp add: tr sn del: run_graph.simps)
    qed
  qed
qed simp_all

text \<open>A run that ended is the same with more fuel.\<close>

lemma run_graph_more_fuel:
  "snd (run_graph e fuel t nd st) \<noteq> OutOfFuel \<Longrightarrow>
   run_graph e (fuel + k) t nd st = run_graph e fuel t nd st"
proof (induction e fuel t nd st rule: run_graph.induct)
  case (3 e fuel t st)
  show ?case
  proof (cases "worker_step e t st")
    case (Inl err) then show ?thesis by simp
  next
    case (Inr st')
    note w = this
    show ?thesis
    proof (cases "worker_router st'")
      case (Inl err) then show ?thesis using w by simp
    next
      case (Inr nd)
      from "3.prems" w Inr have "snd (run_graph e fuel (Suc t) nd st') \<noteq> OutOfFuel"
        by (simp split: prod.splits)
      from "3.IH"[OF w Inr this] show ?thesis using w Inr by simp
    qed
  qed
next
  case (4 e fuel t st)
  from "4.prems"
  have "snd (run_graph e fuel (Suc t) Worker (apply_update st (tool_node e t st))) \<noteq> OutOfFuel"
    by (simp split: prod.splits)
  from "4.IH"[OF this] show ?case by simp
next
  case (5 e fuel t st)
  show ?case
  proof (cases "evaluator_step e t st")
    case (Inl err) then show ?thesis by simp
  next
    case (Inr st')
    from "5.prems" Inr
    have "snd (run_graph e fuel (Suc t) (route_based_on_evaluation st') st') \<noteq> OutOfFuel"
      by (simp split: prod.splits)
    from "5.IH"[OF Inr this] show ?thesis using Inr by simp
  qed
qed simp_all

lemma example_state_eq:
  "example_state =
     \<lparr> messages = [HumanMessage ''Summarize X''],
       success_criteria = ''The answer should be clear and accurate'',
       feedback_on_work = None, success_criteria_met = False, user_input_needed = False \<rparr>"
  by (simp add: example_state_def seeded_state_def latest_state_def absent_state_def
        graph_input_def criteria_or_default_def apply_update_def add_messages_def)

lemma format_loop_acc: "format_loop acc ms = acc @ format_loop [] ms"
proof (induction ms arbitrary: acc)
  case Nil
  then show ?case by simp
next
  case (Cons m ms)
  show ?case
    using Cons.IH[of "acc @ ''User: '' @ content m @ newline"]
      Cons.IH[of "''User: '' @ content m @ newline"]
      Cons.IH[of "acc @ ''Assistant: '' @ content_or_tool_use m @ newline"]
      Cons.IH[of "''Assistant: '' @ content_or_tool_use m @ newline"]
      Cons.IH[of acc]
    by simp
qed

lemma format_loop_append:
  "format_loop acc (xs @ ys) = format_loop (format_loop acc xs) ys"
  by (induction xs arbitrary: acc) simp_all

lemma format_loop_filter:
  "format_loop acc (filter (\<lambda>m. is_HumanMessage m \<or> is_AIMessage m) ms) = format_loop acc ms"
  by (induction ms arbitrary: acc) simp_all

lemma example_run_A:
  "run_graph (example_env scenario_A) (Suc (Suc 0)) 0 Worker example_state =
     ([(example_state, Worker),
       (example_state\<lparr>messages := [HumanMessage ''Summarize X'', AIMessage ''Summary of X'' []]\<rparr>,
        Evaluator),
       (\<lparr> messages = [HumanMessage ''Summarize X'', AIMessage ''Summary of X'' [],
                       AIMessage ''Evaluator feedback: clear and accurate'' []],
          success_criteria = ''The answer should be clear and accurate'',
          feedback_on_work = Some ''clear and accurate'',
          success_criteria_met = True, user_input_needed = False \<rparr>, END)],
      Exited)"
  by (simp add: example_state_eq worker_step_def worker_def example_env_def scenario_A_def
        answer_at_def apply_update_def add_messages_def only_messages_def worker_router_def
        evaluator_step_def evaluator_def route_based_on_evaluation_def)

lemma example_run_D:
  "run_graph (example_env scenario_D) (Suc (Suc 0)) 0 Worker example_state =
     ([(example_state, Worker),
       (example_state\<lparr>messages := [HumanMessage ''Summarize X'', AIMessage ''Summary of X'' []]\<rparr>,
        Evaluator)],
      Raised (StructuredOutputError ''not a judgment''))"
  by (simp add: example_state_eq worker_step_def worker_def example_env_def scenario_D_def
        answer_at_def apply_update_def add_messages_def only_messages_def worker_router_def
        evaluator_step_def evaluator_def route_based_on_evaluation_def)

lemma index_from_end_two:
  "index_from_end (pre @ [a, b]) 2 = Inr a \<and> index_from_end (pre @ [a, b]) 1 = Inr b"
  by (simp add: index_from_end_def nth_append)

lemma sorted_wrt_last:
  assumes "sorted_wrt R xs" and "x \<in> set xs" and "\<And>y. R y y"
  shows "R x (last xs)"
  using assms(1,2)
proof (induction xs)
  case Nil
  then show ?case by simp
next
  case (Cons a xs)
  show ?case
  proof (cases "xs = []")
    case True
    with Cons.prems assms(3) show ?thesis by simp
  next
    case False
    with Cons show ?thesis by auto
  qed
qed

lemma run_superstep_sorted:
  assumes "sorted_wrt (\<lambda>a b. append_only (messages (fst a)) (messages (fst b))) cps"
  shows "sorted_wrt (\<lambda>a b. append_only (messages (fst a)) (messages (fst b)))
           (fst (run_superstep e fuel cps message criteria history))"
proof -
  let ?R = "\<lambda>a b. append_only (messages (fst a)) (messages (fst b))"
  let ?s = "seeded_state cps message criteria"
  let ?tr = "fst (run_graph e fuel 0 Worker ?s)"
  have cross: "?R x y" if x: "x \<in> set cps" and y: "y \<in> set ?tr" for x y
  proof -
    from x have ne: "cps \<noteq> []" by auto
    have 1: "append_only (messages (fst x)) (messages (latest_state cps))"
      using sorted_wrt_last[of ?R cps x] assms x ne
      by (simp add: latest_state_def append_only_refl)
    have 2: "append_only (messages (latest_state cps)) (messages ?s)"
      by (simp add: seeded_state_messages append_only_append)
    have 3: "append_only (messages ?s) (messages (fst y))"
      using run_graph_from_start[of e fuel 0 Worker ?s] y by blast
    from 1 2 3 show ?thesis by (blast intro: append_only_trans)
  qed
  show ?thesis
    unfolding run_superstep_store sorted_wrt_append
    using assms run_graph_sorted[of e fuel 0 Worker ?s] cross by blast
qed

lemma session_sorted:
  "sorted_wrt (\<lambda>a b. append_only (messages (fst a)) (messages (fst b))) cps \<Longrightarrow>
   sorted_wrt (\<lambda>a b. append_only (messages (fst a)) (messages (fst b))) (session cps calls)"
proof (induction calls arbitrary: cps)
  case Nil
  then show ?case by simp
next
  case (Cons c cs)
  show ?case
    unfolding session.simps
    by (rule Cons.IH, rule run_superstep_sorted, rule Cons.prems)
qed

lemma example_session:
  "session [] [example_call] =
     fst (run_graph (example_env scenario_A) (Suc (Suc 0)) 0 Worker example_state)"
  by (simp add: example_call_def run_superstep_store example_state_def del: run_graph.simps)

text \<open>What \<open>run_superstep\<close> returns once the graph has reached its exit.\<close>

lemma run_superstep_exited:
  assumes "ainvoke e fuel cps (graph_input message criteria) = (written, Exited)"
  shows "\<exists>pre reply fb.
           messages (fst (last written)) =
             pre @ [AIMessage reply [], AIMessage (''Evaluator feedback: '' @ fb) []] \<and>
           run_superstep e fuel cps message criteria history =
             (cps @ written,
              Some (Inr (history @
                [(''user'', message),
                 (''assistant'', content (AIMessage reply [])),
                 (''assistant'', content (AIMessage (''Evaluator feedback: '' @ fb) []))])))"
proof -
  let ?s = "apply_update (latest_state cps) (graph_input message criteria)"
  from assms have r: "run_graph e fuel 0 Worker ?s = (written, Exited)"
    by (simp add: ainvoke_def)
  then have "snd (run_graph e fuel 0 Worker ?s) = Exited" by simp
  from run_graph_exit_shape[OF this] r obtain pre reply fb where
    m: "messages (fst (last written)) =
          pre @ [AIMessage reply [], AIMessage (''Evaluator feedback: '' @ fb) []]"
    by auto
  have "run_superstep e fuel cps message criteria history =
          (cps @ written,
           Some (Inr (history @
             [(''user'', message),
              (''assistant'', content (AIMessage reply [])),
              (''assistant'', content (AIMessage (''Evaluator feedback: '' @ fb) []))])))"
    unfolding run_superstep_def assms Let_def prod.case outcome.case m
    by (simp only: index_from_end_two sum.case)
  with m show ?thesis by blast
qed

text \<open>An accepting judgment ends the run at the exit, with the feedback entry last.\<close>

lemma evaluator_step_accept:
  assumes "messages st \<noteq> []"
    and "evaluator_llm_with_output e t (evaluator_input st) = Inr j"
  shows "evaluator_step e t st =
           Inr (st\<lparr>messages := messages st @ [AIMessage (''Evaluator feedback: '' @ feedback j) []],
                    feedback_on_work := Some (feedback j),
                    success_criteria_met := judged_met j,
                    user_input_needed := judged_input_needed j\<rparr>)"
  using assms
  by (simp add: evaluator_step_def evaluator_def apply_update_def add_messages_def)

lemma run_graph_accepting_judgment:
  assumes "run_graph e fuel 0 Worker s0 = (written, out)"
    and "i < fuel" and "i < length written" and "written ! i = (st, Evaluator)"
    and "evaluator_llm_with_output e i (evaluator_input st) = Inr j"
    and "judged_met j \<or> judged_input_needed j"
  shows "out = Exited \<and> length written = Suc (Suc i) \<and>
         last written =
           (st\<lparr>messages := messages st @ [AIMessage (''Evaluator feedback: '' @ feedback j) []],
               feedback_on_work := Some (feedback j),
               success_criteria_met := judged_met j,
               user_input_needed := judged_input_needed j\<rparr>, END)"
proof -
  let ?st' = "st\<lparr>messages := messages st @ [AIMessage (''Evaluator feedback: '' @ feedback j) []],
               feedback_on_work := Some (feedback j),
               success_criteria_met := judged_met j,
               user_input_needed := judged_input_needed j\<rparr>"
  have ne: "messages st \<noteq> []"
    using run_graph_evaluator_nonempty[of Worker s0 e fuel 0] assms(1,3,4)
    by (metis fst_conv node.distinct(3) nth_mem snd_conv)
  from assms(2) obtain k where k: "fuel - i = Suc k"
    by (cases "fuel - i") auto
  have ev: "evaluator_step e i st = Inr ?st'"
    by (rule evaluator_step_accept[OF ne assms(5)])
  have rt: "route_based_on_evaluation ?st' = END"
    using assms(6) by (simp add: route_based_on_evaluation_def)
  from run_graph_suffix[of i e fuel 0 Worker s0] assms(1,3,4)
  have "run_graph e (Suc k) i Evaluator st = (drop i written, out)"
    by (simp add: k)
  moreover have "run_graph e (Suc k) i Evaluator st = ([(st, Evaluator), (?st', END)], Exited)"
    using ev rt by simp
  ultimately have d: "drop i written = [(st, Evaluator), (?st', END)]" and o: "out = Exited"
    by simp_all
  from d have "length (drop i written) = 2" by simp
  then have len: "length written = Suc (Suc i)" using assms(3) by simp
  have "last written = last (drop i written)"
    using assms(3) by simp
  then have "last written = (?st', END)" using d by simp
  with o len show ?thesis by simp
qed

text \<open>A run reaches the exit only through an accepting judgment.\<close>

lemma run_graph_exit_judgment:
  assumes "snd (run_graph e fuel t nd st) = Exited" and "nd \<noteq> END"
  shows "\<exists>i s j. i < fuel \<and> i < length (fst (run_graph e fuel t nd st)) \<and>
           fst (run_graph e fuel t nd st) ! i = (s, Evaluator) \<and>
           evaluator_llm_with_output e (t + i) (evaluator_input s) = Inr j \<and>
           (judged_met j \<or> judged_input_needed j)"
  using assms
proof (induction e fuel t nd st rule: run_graph.induct)
  case (3 e fuel t st)
  from "3.prems"(1) obtain st' where w: "worker_step e t st = Inr st'"
    by (cases "worker_step e t st") auto
  from "3.prems"(1) w obtain nd where r: "worker_router st' = Inr nd"
    by (cases "worker_router st'") auto
  have tr: "fst (run_graph e (Suc fuel) t Worker st) =
              (st, Worker) # fst (run_graph e fuel (Suc t) nd st')"
    and sn: "snd (run_graph e (Suc fuel) t Worker st) = snd (run_graph e fuel (Suc t) nd st')"
    using w r by (simp_all split: prod.splits)
  from worker_router_after_worker[OF w r] have nd: "nd \<noteq> END" by auto
  from "3.IH"[OF w r _ nd] "3.prems"(1) sn obtain i s j where
    "i < fuel" "i < length (fst (run_graph e fuel (Suc t) nd st'))"
    "fst (run_graph e fuel (Suc t) nd st') ! i = (s, Evaluator)"
    "evaluator_llm_with_output e (Suc t + i) (evaluator_input s) = Inr j"
    "judged_met j \<or> judged_input_needed j"
    by auto
  then show ?case
    unfolding tr by (intro exI[of _ "Suc i"] exI[of _ s] exI[of _ j]) simp
next
  case (4 e fuel t st)
  let ?st' = "apply_update st (tool_node e t st)"
  have tr: "fst (run_graph e (Suc fuel) t Tools st) =
              (st, Tools) # fst (run_graph e fuel (Suc t) Worker ?st')"
    and sn: "snd (run_graph e (Suc fuel) t Tools st) = snd (run_graph e fuel (Suc t) Worker ?st')"
    by (simp_all split: prod.splits)
  from "4.IH" "4.prems"(1) sn obtain i s j where
    "i < fuel" "i < length (fst (run_graph e fuel (Suc t) Worker ?st'))"
    "fst (run_graph e fuel (Suc t) Worker ?st') ! i = (s, Evaluator)"
    "evaluator_llm_with_output e (Suc t + i) (evaluator_input s) = Inr j"
    "judged_met j \<or> judged_input_needed j"
    by auto
  then show ?case
    unfolding tr by (intro exI[of _ "Suc i"] exI[of _ s] exI[of _ j]) simp
next
  case (5 e fuel t st)
  from "5.prems"(1) obtain st' where ev: "evaluator_step e t st = Inr st'"
    by (cases "evaluator_step e t st") auto
  have tr: "fst (run_graph e (Suc fuel) t Evaluator st) =
              (st, Evaluator) # fst (run_graph e fuel (Suc t) (route_based_on_evaluation st') st')"
    and sn: "snd (run_graph e (Suc fuel) t Evaluator st) =
              snd (run_graph e fuel (Suc t) (route_based_on_evaluation st') st')"
    using ev by (simp_all split: prod.splits)
  from evaluator_step_Inr[OF ev] obtain j where
    j: "evaluator_llm_with_output e t (evaluator_input st) = Inr j"
    and f: "success_criteria_met st' = judged_met j" "user_input_needed st' = judged_input_needed j"
    by auto
  show ?case
  proof (cases "route_based_on_evaluation st' = END")
    case True
    then have "judged_met j \<or> judged_input_needed j"
      using f by (simp add: route_based_on_evaluation_def split: if_splits)
    with j show ?thesis
      unfolding tr by (intro exI[of _ 0] exI[of _ st] exI[of _ j]) simp
  next
    case False
    from "5.IH"[OF ev _ False] "5.prems"(1) sn obtain i s j' where
      "i < fuel"
      "i < length (fst (run_graph e fuel (Suc t) (route_based_on_evaluation st') st'))"
      "fst (run_graph e fuel (Suc t) (route_based_on_evaluation st') st') ! i = (s, Evaluator)"
      "evaluator_llm_with_output e (Suc t + i) (evaluator_input s) = Inr j'"
      "judged_met j' \<or> judged_input_needed j'"
      by auto
    then show ?thesis
      unfolding tr by (intro exI[of _ "Suc i"] exI[of _ s] exI[of _ j']) simp
  qed
qed simp_all

text \<open>The loop of \<open>format_conversation\<close> adds one line for each user or assistant entry.\<close>

lemma format_loop_lines:
  "format_loop acc ms =
     acc @ concat (map (\<lambda>m. case m of
                          HumanMessage c \<Rightarrow> ''User: '' @ c @ [CHR 0x0A]
                        | AIMessage c tcs \<Rightarrow>
                            ''Assistant: '' @ (if c = [] then ''[tool use]'' else c) @ [CHR 0x0A]
                        | _ \<Rightarrow> []) ms)"
proof (induction ms arbitrary: acc)
  case Nil
  then show ?case by simp
next
  case (Cons m ms)
  show ?case
    by (cases m) (simp_all add: Cons.IH content_or_tool_use_def newline_def)
qed

lemma format_conversation_example:
  "format_conversation
     [SystemMessage ''instructions'', HumanMessage ''q'',
      AIMessage [] [ToolCall ''search'' ''X'' ''call_1''], ToolMessage ''r'' ''call_1'',
      AIMessage ''done '' []] =
   ''User: q'' @ [CHR 0x0A] @ ''Assistant: [tool use]'' @ [CHR 0x0A] @ ''Assistant: done''"
  by (simp add: format_conversation_def content_or_tool_use_def newline_def strip_def
        is_space_def)

section \<open>The claims\<close>

text \<open>
  Claim C1, amended. In every checkpoint of every session, so before and after each
  worker step, the \<open>messages\<close> of the state hold no system entry; the list the worker
  gives to the model is the state's list with one system entry in front, carrying the
  current instructions, so the model sees exactly one. For any state \<open>s\<close>: the worker
  rewrites the system entries the state has and adds one, for the model only, when it
  has none, so the model sees as many as the state has, and one when it has none.
\<close>

theorem session_system_entry:
  assumes "(st, nd) \<in> set (session [] calls)"
  shows "system_entries (messages st) = 0 \<and>
         worker_input d st = SystemMessage (system_message d st) # messages st \<and>
         system_entries (worker_input d st) = 1 \<and>
         system_entries (worker_input d s) = max 1 (system_entries (messages s)) \<and>
         worker_input d s =
           (if system_entries (messages s) = 0 then SystemMessage (system_message d s) # messages s
            else map (\<lambda>m. if is_SystemMessage m then SystemMessage (system_message d s) else m)
                   (messages s))"
proof -
  have z: "system_entries (messages st) = 0"
    using session_system_entries[of "[]" calls] assms by auto
  then have "worker_input d st = SystemMessage (system_message d st) # messages st"
    by (simp add: worker_input_eq)
  moreover have "system_entries (worker_input d st) = 1"
    using z by (simp add: system_entries_worker_input)
  ultimately show ?thesis
    using z system_entries_worker_input[of d s] worker_input_eq[of d s] by simp
qed

text \<open>The session of one call in scenario A: the checkpoint after its worker step, and
  the list a worker step on it gives to the model.\<close>

theorem session_system_entry_witness:
  "(example_state\<lparr>messages := [HumanMessage ''Summarize X'', AIMessage ''Summary of X'' []]\<rparr>,
    Evaluator) \<in> set (session [] [example_call]) \<and>
   system_entries [HumanMessage ''Summarize X'', AIMessage ''Summary of X'' []] = 0 \<and>
   system_entries
     (worker_input ''2026-01-01 12:00:00''
        (example_state\<lparr>messages := [HumanMessage ''Summarize X'',
                                      AIMessage ''Summary of X'' []]\<rparr>)) = 1"
proof -
  have h: "(example_state\<lparr>messages := [HumanMessage ''Summarize X'', AIMessage ''Summary of X'' []]\<rparr>,
    Evaluator) \<in> set (session [] [example_call])"
    unfolding example_session by (simp only: example_run_A fst_conv) simp
  let ?s = "example_state\<lparr>messages := [HumanMessage ''Summarize X'',
                                           AIMessage ''Summary of X'' []]\<rparr>"
  from session_system_entry[OF h, of "''2026-01-01 12:00:00''"]
  have a: "system_entries (messages ?s) = 0"
    and b: "system_entries (worker_input ''2026-01-01 12:00:00'' ?s) = 1"
    by blast+
  from a have "system_entries [HumanMessage ''Summarize X'', AIMessage ''Summary of X'' []] = 0"
    by simp
  with h b show ?thesis by blast
qed

text \<open>
  Claim C1 as stated fails: after the first worker step of a fresh session the state
  holds no system entry, not one.
\<close>

theorem state_after_worker_counterexample:
  "map_sum id (system_entries \<circ> messages)
     (worker_step (example_env scenario_A) 0 example_state) = Inr 0"
  by (simp add: example_state_eq worker_step_def worker_def example_env_def scenario_A_def
        answer_at_def apply_update_def add_messages_def only_messages_def system_entries_def)

text \<open>
  Claim C2. The routing after the evaluator goes to the exit exactly when
  \<open>success_criteria_met\<close> or \<open>user_input_needed\<close> is true in the state, and back to the
  worker exactly when both are false.
\<close>

theorem route_based_on_evaluation_exit:
  "(route_based_on_evaluation st = END) = (success_criteria_met st \<or> user_input_needed st) \<and>
   (route_based_on_evaluation st = Worker) =
     (\<not> success_criteria_met st \<and> \<not> user_input_needed st)"
  by (simp add: route_based_on_evaluation_def)

text \<open>The routing of C2 at the example state, and at the same state asking for user input.\<close>

theorem route_based_on_evaluation_exit_witness:
  "route_based_on_evaluation example_state = Worker \<and>
   route_based_on_evaluation (example_state\<lparr>user_input_needed := True\<rparr>) = END"
  using route_based_on_evaluation_exit[of example_state]
    route_based_on_evaluation_exit[of "example_state\<lparr>user_input_needed := True\<rparr>"]
  by (simp add: example_state_eq)

text \<open>
  Claim C3. The routing after the worker is decided by the last entry alone: with a
  non-empty list of tool calls on it the next node is the tool node, otherwise the
  evaluator; the earlier entries and the other fields of the state play no part. Only
  an \<open>AIMessage\<close> can carry tool calls.
\<close>

theorem worker_router_last_entry:
  "worker_router (st\<lparr>messages := earlier @ [m]\<rparr>) =
     Inr (if has_tool_calls m then Tools else Evaluator) \<and>
   worker_router (st\<lparr>messages := earlier @ [m]\<rparr>) =
     worker_router (st'\<lparr>messages := other @ [m]\<rparr>) \<and>
   has_tool_calls m = (\<exists>c tcs. m = AIMessage c tcs \<and> tcs \<noteq> [])"
  by (cases m) (simp_all add: worker_router_def)

text \<open>
  Claim C4. Along every run of the graph, from any state and node, and along every
  session, the \<open>messages\<close> of a later checkpoint are at least as long as those of an
  earlier one, and every entry of the earlier one that is not a system entry is
  unchanged at its place in the later one.
\<close>

theorem messages_append_only:
  assumes "cps = fst (run_graph e fuel t nd st) \<or> cps = session [] calls"
    and "i < j" and "j < length cps"
  shows "length (messages (fst (cps ! i))) \<le> length (messages (fst (cps ! j))) \<and>
         (\<forall>k < length (messages (fst (cps ! i))).
            \<not> is_SystemMessage (messages (fst (cps ! i)) ! k) \<longrightarrow>
            messages (fst (cps ! j)) ! k = messages (fst (cps ! i)) ! k) \<and>
         append_only (messages (fst (cps ! i))) (messages (fst (cps ! j)))"
proof -
  have "sorted_wrt (\<lambda>a b. append_only (messages (fst a)) (messages (fst b))) cps"
    using assms(1) run_graph_sorted[of e fuel t nd st] session_sorted[of "[]" calls] by auto
  then have a: "append_only (messages (fst (cps ! i))) (messages (fst (cps ! j)))"
    using assms(2,3) by (simp add: sorted_wrt_iff_nth_less)
  then show ?thesis
    unfolding append_only_nth by (auto split: if_splits)
qed

text \<open>The session of one call in scenario A: its first checkpoint and its last.\<close>

theorem messages_append_only_witness:
  "length (messages (fst (session [] [example_call] ! 0))) \<le>
     length (messages (fst (session [] [example_call] ! 2))) \<and>
   messages (fst (session [] [example_call] ! 0)) = [HumanMessage ''Summarize X''] \<and>
   messages (fst (session [] [example_call] ! 2)) ! 0 = HumanMessage ''Summarize X''"
proof -
  have s: "session [] [example_call] =
     [(example_state, Worker),
       (example_state\<lparr>messages := [HumanMessage ''Summarize X'', AIMessage ''Summary of X'' []]\<rparr>,
        Evaluator),
       (\<lparr> messages = [HumanMessage ''Summarize X'', AIMessage ''Summary of X'' [],
                       AIMessage ''Evaluator feedback: clear and accurate'' []],
          success_criteria = ''The answer should be clear and accurate'',
          feedback_on_work = Some ''clear and accurate'',
          success_criteria_met = True, user_input_needed = False \<rparr>, END)]"
    unfolding example_session by (simp only: example_run_A fst_conv)
  have h1: "session [] [example_call] =
              fst (run_graph (example_env scenario_A) (Suc (Suc 0)) 0 Worker example_state) \<or>
            session [] [example_call] = session [] [example_call]"
    by (rule disjI1, rule example_session)
  have h2: "(0::nat) < 2" by simp
  have h3: "2 < length (session [] [example_call])" unfolding s by simp
  from messages_append_only[OF h1 h2 h3] show ?thesis
    unfolding s by (simp add: example_state_eq)
qed

text \<open>
  Claim C5. When at step \<open>i\<close> of a call the evaluator runs and its judgment has
  \<open>success_criteria_met\<close> or \<open>user_input_needed\<close>, the graph reaches its exit, and
  \<open>run_superstep\<close>, with this fuel or more, returns the prior transcript extended with
  three entries in this order: the user message, the content of the second-to-last
  entry of the final state, which is the worker's last reply (an assistant entry
  without tool calls), and the content of its last entry, which is the evaluator's
  feedback entry. By \<open>run_graph_exit_judgment\<close> a run reaches the exit in no other way.
\<close>

theorem run_superstep_transcript:
  assumes "ainvoke e fuel cps (graph_input message criteria) = (written, out)"
    and "i < fuel" and "i < length written" and "written ! i = (st, Evaluator)"
    and "evaluator_llm_with_output e i (evaluator_input st) = Inr j"
    and "judged_met j \<or> judged_input_needed j"
  shows "out = Exited \<and>
         (\<exists>pre reply.
            messages (fst (last written)) =
              pre @ [AIMessage reply [], AIMessage (''Evaluator feedback: '' @ feedback j) []] \<and>
            run_superstep e (fuel + k) cps message criteria history =
              (cps @ written,
               Some (Inr (history @
                 [(''user'', message),
                  (''assistant'', content (AIMessage reply [])),
                  (''assistant'', content (AIMessage (''Evaluator feedback: '' @ feedback j) []))]))))"
proof -
  let ?s = "apply_update (latest_state cps) (graph_input message criteria)"
  from assms(1) have r: "run_graph e fuel 0 Worker ?s = (written, out)"
    by (simp add: ainvoke_def)
  from run_graph_accepting_judgment[OF r assms(2-6)]
  have o: "out = Exited"
    and l: "messages (fst (last written)) =
              messages st @ [AIMessage (''Evaluator feedback: '' @ feedback j) []]"
    by simp_all
  from r o have "snd (run_graph e fuel 0 Worker ?s) \<noteq> OutOfFuel" by simp
  from run_graph_more_fuel[OF this, of k] r o
  have a: "ainvoke e (fuel + k) cps (graph_input message criteria) = (written, Exited)"
    by (simp add: ainvoke_def)
  from run_superstep_exited[OF a, of history] obtain pre reply fb where
    m: "messages (fst (last written)) =
          pre @ [AIMessage reply [], AIMessage (''Evaluator feedback: '' @ fb) []]"
    and t: "run_superstep e (fuel + k) cps message criteria history =
             (cps @ written,
              Some (Inr (history @
                [(''user'', message),
                 (''assistant'', content (AIMessage reply [])),
                 (''assistant'', content (AIMessage (''Evaluator feedback: '' @ fb) []))])))"
    by blast
  from l m have "messages st @ [AIMessage (''Evaluator feedback: '' @ feedback j) []] =
                 (pre @ [AIMessage reply []]) @ [AIMessage (''Evaluator feedback: '' @ fb) []]"
    by simp
  then have "AIMessage (''Evaluator feedback: '' @ feedback j) [] =
             AIMessage (''Evaluator feedback: '' @ fb) []"
    by (simp only: append1_eq_conv)
  then have fb: "fb = feedback j" by simp
  from o m t show ?thesis unfolding fb by blast
qed

text \<open>The call of C5 in scenario A, on a fresh store and an empty transcript.\<close>

theorem run_superstep_transcript_witness:
  "run_superstep (example_env scenario_A) (Suc (Suc 0) + 3) [] ''Summarize X'' None [] =
     (fst (run_graph (example_env scenario_A) (Suc (Suc 0)) 0 Worker example_state),
      Some (Inr [(''user'', ''Summarize X''),
                 (''assistant'', ''Summary of X''),
                 (''assistant'', ''Evaluator feedback: clear and accurate'')]))"
proof -
  let ?s1 = "example_state\<lparr>messages := [HumanMessage ''Summarize X'', AIMessage ''Summary of X'' []]\<rparr>"
  let ?w = "fst (run_graph (example_env scenario_A) (Suc (Suc 0)) 0 Worker example_state)"
  have h1: "ainvoke (example_env scenario_A) (Suc (Suc 0)) [] (graph_input ''Summarize X'' None) =
              (?w, Exited)"
    unfolding ainvoke_def seeded_state_def[symmetric] example_state_def[symmetric]
    by (simp only: example_run_A fst_conv)
  have h2: "Suc 0 < Suc (Suc 0)" by simp
  have h3: "Suc 0 < length ?w" by (simp only: example_run_A fst_conv) simp
  have h4: "?w ! Suc 0 = (?s1, Evaluator)" by (simp only: example_run_A fst_conv) simp
  have h5: "evaluator_llm_with_output (example_env scenario_A) (Suc 0) (evaluator_input ?s1) =
              Inr (EvaluatorOutput ''clear and accurate'' True False)"
    by (simp add: example_env_def scenario_A_def answer_at_def)
  have h6: "judged_met (EvaluatorOutput ''clear and accurate'' True False) \<or>
            judged_input_needed (EvaluatorOutput ''clear and accurate'' True False)" by simp
  from run_superstep_transcript[OF h1 h2 h3 h4 h5 h6, of 3 "[]"] obtain pre reply where
    m: "messages (fst (last ?w)) =
          pre @ [AIMessage reply [], AIMessage (''Evaluator feedback: '' @ ''clear and accurate'') []]"
    and t: "run_superstep (example_env scenario_A) (Suc (Suc 0) + 3) [] ''Summarize X'' None [] =
             ([] @ ?w,
              Some (Inr ([] @
                [(''user'', ''Summarize X''),
                 (''assistant'', content (AIMessage reply [])),
                 (''assistant'', content (AIMessage (''Evaluator feedback: '' @ ''clear and accurate'') []))])))"
    by auto
  have "messages (fst (last ?w)) =
          ([HumanMessage ''Summarize X''] @ [AIMessage ''Summary of X'' []]) @
             [AIMessage (''Evaluator feedback: '' @ ''clear and accurate'') []]"
    by (simp only: example_run_A fst_conv) simp
  with m have "(pre @ [AIMessage reply []]) @
                 [AIMessage (''Evaluator feedback: '' @ ''clear and accurate'') []] =
               ([HumanMessage ''Summarize X''] @ [AIMessage ''Summary of X'' []]) @
                 [AIMessage (''Evaluator feedback: '' @ ''clear and accurate'') []]"
    by simp
  then have "pre @ [AIMessage reply []] =
             [HumanMessage ''Summarize X''] @ [AIMessage ''Summary of X'' []]"
    by (simp only: append1_eq_conv)
  then have "AIMessage reply [] = AIMessage ''Summary of X'' []"
    by (simp only: append1_eq_conv)
  then have "reply = ''Summary of X''" by simp
  with t show ?thesis by simp
qed

text \<open>
  Claim C6. When the model call of the evaluator returns a judgment, the evaluator step
  appends one assistant entry, \<open>Evaluator feedback: \<close> followed by the feedback of the
  judgment, and sets \<open>feedback_on_work\<close>, \<open>success_criteria_met\<close> and \<open>user_input_needed\<close>
  to the three fields of the judgment; the criteria and the earlier entries stay.
\<close>

theorem evaluator_appends_feedback:
  assumes "messages st \<noteq> []"
    and "evaluator_llm_with_output e t (evaluator_input st) = Inr eval_result"
  shows "evaluator_step e t st =
           Inr \<lparr> messages = messages st @
                              [AIMessage (''Evaluator feedback: '' @ feedback eval_result) []],
                 success_criteria = success_criteria st,
                 feedback_on_work = Some (feedback eval_result),
                 success_criteria_met = judged_met eval_result,
                 user_input_needed = judged_input_needed eval_result \<rparr>"
  using assms
  by (simp add: evaluator_step_def evaluator_def apply_update_def add_messages_def)

text \<open>The evaluator step of C6 in scenario A, on the state the worker left.\<close>

theorem evaluator_appends_feedback_witness:
  "evaluator_step (example_env scenario_A) (Suc 0)
     (example_state\<lparr>messages := [HumanMessage ''Summarize X'', AIMessage ''Summary of X'' []]\<rparr>) =
   Inr \<lparr> messages = [HumanMessage ''Summarize X'', AIMessage ''Summary of X'' [],
                      AIMessage ''Evaluator feedback: clear and accurate'' []],
         success_criteria = ''The answer should be clear and accurate'',
         feedback_on_work = Some ''clear and accurate'',
         success_criteria_met = True, user_input_needed = False \<rparr>"
proof -
  let ?s = "example_state\<lparr>messages := [HumanMessage ''Summarize X'', AIMessage ''Summary of X'' []]\<rparr>"
  have h1: "messages ?s \<noteq> []" by simp
  have h2: "evaluator_llm_with_output (example_env scenario_A) (Suc 0) (evaluator_input ?s) =
              Inr (EvaluatorOutput ''clear and accurate'' True False)"
    by (simp add: example_env_def scenario_A_def answer_at_def)
  show ?thesis using evaluator_appends_feedback[OF h1 h2]
    by (simp add: example_state_eq)
qed

text \<open>
  Claim C7. The transcript of the evaluator is the stripped concatenation of one line
  for each user and assistant entry, in order, and of nothing for any other entry: a
  tool-result entry adds nothing, a user entry adds the line \<open>User: \<close> with its content,
  an assistant entry with text the line \<open>Assistant: \<close> with its content, and an
  assistant entry with no text the line \<open>Assistant: [tool use]\<close>.
\<close>

theorem format_conversation_turns:
  "format_conversation ms =
     strip (concat (map (\<lambda>m. case m of
                           HumanMessage c \<Rightarrow> ''User: '' @ c @ [CHR 0x0A]
                         | AIMessage c tcs \<Rightarrow>
                             ''Assistant: '' @ (if c = [] then ''[tool use]'' else c) @ [CHR 0x0A]
                         | _ \<Rightarrow> []) ms)) \<and>
   format_conversation (filter (\<lambda>m. is_HumanMessage m \<or> is_AIMessage m) ms) =
     format_conversation ms \<and>
   format_conversation (before @ ToolMessage c i # after) = format_conversation (before @ after) \<and>
   format_loop text (before @ HumanMessage c # after) =
     format_loop (format_loop text before @ ''User: '' @ c @ newline) after \<and>
   format_loop text (before @ AIMessage (x # c) tcs # after) =
     format_loop (format_loop text before @ ''Assistant: '' @ (x # c) @ newline) after \<and>
   format_loop text (before @ AIMessage [] tcs # after) =
     format_loop (format_loop text before @ ''Assistant: [tool use]'' @ newline) after \<and>
   format_conversation [AIMessage [] tcs] = ''Assistant: [tool use]'' \<and>
   format_conversation [HumanMessage ''q'', AIMessage ''done'' []] =
     ''User: q'' @ [CHR 0x0A] @ ''Assistant: done'' \<and>
   format_conversation
     [SystemMessage ''instructions'', HumanMessage ''q'',
      AIMessage [] [ToolCall ''search'' ''X'' ''call_1''], ToolMessage ''r'' ''call_1'',
      AIMessage ''done '' []] =
   ''User: q'' @ [CHR 0x0A] @ ''Assistant: [tool use]'' @ [CHR 0x0A] @ ''Assistant: done''"
proof -
  have link: "format_conversation ms =
     strip (concat (map (\<lambda>m. case m of
                           HumanMessage c \<Rightarrow> ''User: '' @ c @ [CHR 0x0A]
                         | AIMessage c tcs \<Rightarrow>
                             ''Assistant: '' @ (if c = [] then ''[tool use]'' else c) @ [CHR 0x0A]
                         | _ \<Rightarrow> []) ms))"
    unfolding format_conversation_def by (subst format_loop_lines) simp
  have e1: "format_conversation [AIMessage [] tcs] = ''Assistant: [tool use]''"
    by (simp add: format_conversation_def content_or_tool_use_def newline_def strip_def
          is_space_def)
  have e2: "format_conversation [HumanMessage ''q'', AIMessage ''done'' []] =
     ''User: q'' @ [CHR 0x0A] @ ''Assistant: done''"
    by (simp add: format_conversation_def content_or_tool_use_def newline_def strip_def
          is_space_def)
  have rest: "format_conversation (filter (\<lambda>m. is_HumanMessage m \<or> is_AIMessage m) ms) =
     format_conversation ms \<and>
   format_conversation (before @ ToolMessage c i # after) = format_conversation (before @ after) \<and>
   format_loop text (before @ HumanMessage c # after) =
     format_loop (format_loop text before @ ''User: '' @ c @ newline) after \<and>
   format_loop text (before @ AIMessage (x # c) tcs # after) =
     format_loop (format_loop text before @ ''Assistant: '' @ (x # c) @ newline) after \<and>
   format_loop text (before @ AIMessage [] tcs # after) =
     format_loop (format_loop text before @ ''Assistant: [tool use]'' @ newline) after"
    by (simp add: format_conversation_def format_loop_filter format_loop_append
          content_or_tool_use_def)
  from link e1 e2 rest format_conversation_example show ?thesis
    by (intro conjI) blast+
qed

text \<open>
  Claim C8. The update the worker returns has the key \<open>messages\<close> only, holding the one
  response of the model; so the state after the worker step differs from the state
  before it in \<open>messages\<close> alone, which is the former list (its system entries
  rewritten) with the response appended.
\<close>

theorem worker_updates_messages_only:
  assumes "worker e t st = Inr (msgs, u)"
  shows "upd_success_criteria u = None \<and> upd_feedback_on_work u = None \<and>
         upd_success_criteria_met u = None \<and> upd_user_input_needed u = None \<and>
         (\<exists>c tcs. worker_llm_with_tools e t (worker_input (now e t) st) = Inr (c, tcs) \<and>
                  upd_messages u = [AIMessage c tcs]) \<and>
         msgs = map (\<lambda>m. if is_SystemMessage m
                          then SystemMessage (system_message (now e t) st) else m) (messages st) \<and>
         worker_step e t st = Inr (st\<lparr>messages := msgs @ upd_messages u\<rparr>)"
  using assms
  by (auto simp: worker_step_def worker_def only_messages_def rewrite_system_fst
        apply_update_def add_messages_def split: sum.splits prod.splits)

text \<open>The worker of C8 on the example state, answered by the script of scenario A.\<close>

theorem worker_updates_messages_only_witness:
  "worker (example_env scenario_A) 0 example_state =
     Inr ([HumanMessage ''Summarize X''], only_messages [AIMessage ''Summary of X'' []]) \<and>
   worker_step (example_env scenario_A) 0 example_state =
     Inr (example_state\<lparr>messages := [HumanMessage ''Summarize X'', AIMessage ''Summary of X'' []]\<rparr>)"
proof -
  have h: "worker (example_env scenario_A) 0 example_state =
     Inr ([HumanMessage ''Summarize X''], only_messages [AIMessage ''Summary of X'' []])"
    by (simp add: example_state_eq worker_def example_env_def scenario_A_def answer_at_def)
  show ?thesis using h worker_updates_messages_only[OF h]
    by (simp add: only_messages_def)
qed

text \<open>
  Claim C9. If at step \<open>i\<close> of a call the evaluator is to run and its model call fails
  with \<open>err\<close> (as with an answer that does not parse), then \<open>run_superstep\<close> raises \<open>err\<close>
  and returns no transcript; the last checkpoint is the one the evaluator started from,
  so no judgment was put in its place, and no state written in this call claims
  success or asks for user input.
\<close>

theorem evaluator_failure_propagates:
  assumes "ainvoke e fuel cps (graph_input message criteria) = (written, out)"
    and "i < fuel" and "i < length written" and "written ! i = (st, Evaluator)"
    and "evaluator_llm_with_output e i (evaluator_input st) = Inl err"
  shows "run_superstep e fuel cps message criteria history = (cps @ written, Some (Inl err)) \<and>
         last written = (st, Evaluator) \<and> length written = Suc i \<and>
         (\<forall>c \<in> set written. \<not> success_criteria_met (fst c) \<and> \<not> user_input_needed (fst c))"
proof -
  let ?s = "seeded_state cps message criteria"
  from assms(1) have r: "run_graph e fuel 0 Worker ?s = (written, out)"
    by (simp add: ainvoke_def seeded_state_def)
  have ne: "messages st \<noteq> []"
    using run_graph_evaluator_nonempty[of Worker ?s e fuel 0] r assms(3,4)
    by (metis fst_conv node.distinct(3) nth_mem snd_conv)
  from assms(2) obtain k where k: "fuel - i = Suc k"
    by (cases "fuel - i") auto
  have ev: "evaluator_step e i st = Inl err"
    using ne assms(5) by (simp add: evaluator_step_def evaluator_def)
  from run_graph_suffix[of i e fuel 0 Worker ?s] r assms(3,4)
  have "run_graph e (Suc k) i Evaluator st = (drop i written, out)"
    by (simp add: k)
  with ev have d: "drop i written = [(st, Evaluator)]" and o: "out = Raised err"
    by simp_all
  from d have len: "length written = Suc i"
    using assms(3) by (metis One_nat_def Suc_eq_plus1 add.commute add_diff_inverse_nat
        length_Cons length_drop list.size(3) not_less_iff_gr_or_eq less_imp_le_nat le_add_diff_inverse)
  have lst: "last written = (st, Evaluator)"
    using len assms(4) by (metis diff_Suc_1 last_conv_nth length_0_conv nat.distinct(1))
  have fl: "\<forall>c \<in> set written. \<not> success_criteria_met (fst c) \<and> \<not> user_input_needed (fst c)"
    using run_graph_flags[of e fuel 0 Worker ?s] r o
    by (simp add: seeded_state_def apply_update_def graph_input_def)
  have "run_superstep e fuel cps message criteria history = (cps @ written, Some (Inl err))"
    by (simp add: run_superstep_def assms(1) o)
  with lst len fl show ?thesis by simp
qed

text \<open>The call of C9 in scenario D.\<close>

theorem evaluator_failure_propagates_witness:
  "run_superstep (example_env scenario_D) (Suc (Suc 0)) [] ''Summarize X'' None [] =
     ([(example_state, Worker),
       (example_state\<lparr>messages := [HumanMessage ''Summarize X'', AIMessage ''Summary of X'' []]\<rparr>,
        Evaluator)],
      Some (Inl (StructuredOutputError ''not a judgment'')))"
proof -
  let ?s1 = "example_state\<lparr>messages := [HumanMessage ''Summarize X'', AIMessage ''Summary of X'' []]\<rparr>"
  let ?w = "[(example_state, Worker), (?s1, Evaluator)]"
  have h1: "ainvoke (example_env scenario_D) (Suc (Suc 0)) [] (graph_input ''Summarize X'' None) =
              (?w, Raised (StructuredOutputError ''not a judgment''))"
    unfolding ainvoke_def seeded_state_def[symmetric] example_state_def[symmetric]
    by (simp only: example_run_D)
  have h2: "Suc 0 < Suc (Suc 0)" by simp
  have h3: "Suc 0 < length ?w" by simp
  have h4: "?w ! Suc 0 = (?s1, Evaluator)" by simp
  have h5: "evaluator_llm_with_output (example_env scenario_D) (Suc 0) (evaluator_input ?s1) =
              Inl (StructuredOutputError ''not a judgment'')"
    by (simp add: example_env_def scenario_D_def answer_at_def)
  from evaluator_failure_propagates[OF h1 h2 h3 h4 h5, of "[]"] show ?thesis by simp
qed

text \<open>
  Claim C10. Whatever the store holds from earlier calls, the first checkpoint of a call
  is the seeded state with the worker to run next; in it \<open>feedback_on_work\<close> is \<open>None\<close>
  and both flags are false, so the text the first worker step builds is the plain
  instructions, without the clause about a rejected attempt, and every system entry
  the model is given carries exactly this text.
\<close>

theorem seeded_state_no_rejection_clause:
  "hd (fst (ainvoke e fuel cps (graph_input message criteria))) =
     (seeded_state cps message criteria, Worker) \<and>
   feedback_on_work (seeded_state cps message criteria) = None \<and>
   \<not> success_criteria_met (seeded_state cps message criteria) \<and>
   \<not> user_input_needed (seeded_state cps message criteria) \<and>
   system_message d (seeded_state cps message criteria) =
     worker_instructions d (criteria_or_default criteria) \<and>
   filter is_SystemMessage (worker_input d (seeded_state cps message criteria)) =
     replicate (max 1 (system_entries (messages (seeded_state cps message criteria))))
       (SystemMessage (worker_instructions d (criteria_or_default criteria)))"
proof -
  let ?s = "seeded_state cps message criteria"
  have f: "feedback_on_work ?s = None" "\<not> success_criteria_met ?s" "\<not> user_input_needed ?s"
    "success_criteria ?s = criteria_or_default criteria"
    by (simp_all add: seeded_state_def apply_update_def graph_input_def)
  have sm: "system_message d ?s = worker_instructions d (criteria_or_default criteria)"
    by (simp add: system_message_def f)
  have h: "hd (fst (ainvoke e fuel cps (graph_input message criteria))) = (?s, Worker)"
    using run_graph_hd[of e fuel 0 Worker ?s] by (simp add: ainvoke_def seeded_state_def)
  have fl: "filter is_SystemMessage (map (\<lambda>m. if is_SystemMessage m then SystemMessage x else m) ms)
              = replicate (system_entries ms) (SystemMessage x)" for x ms
    by (induction ms) (simp_all add: system_entries_def)
  have "filter is_SystemMessage (worker_input d ?s) =
          replicate (max 1 (system_entries (messages ?s))) (SystemMessage (system_message d ?s))"
  proof (cases "system_entries (messages ?s) = 0")
    case True
    then show ?thesis by (simp add: worker_input_eq system_entries_def)
  next
    case False
    then have "max 1 (system_entries (messages ?s)) = system_entries (messages ?s)" by simp
    then show ?thesis using False by (simp add: worker_input_eq fl)
  qed
  then show ?thesis using f sm h by simp
qed

end
